theory Spec2Isabelle
  imports Complex_Main "HOL-Library.Word"
begin

unbundle bit_operations_syntax

section \<open>JavaScript values used by the ByteArray class\<close>

text \<open>
  A JavaScript \<open>number\<close> is modelled as an exact rational or \<open>NaN\<close>.  Rounding of
  doubles and the two infinities are outside the model; negative zero is identified
  with zero.  Comparisons follow the language: every comparison with \<open>NaN\<close> is false.
\<close>

datatype number = Num rat | NaN

fun num_add :: "number \<Rightarrow> number \<Rightarrow> number" where
  "num_add (Num a) (Num b) = Num (a + b)"
| "num_add _ _ = NaN"

fun num_sub :: "number \<Rightarrow> number \<Rightarrow> number" where
  "num_sub (Num a) (Num b) = Num (a - b)"
| "num_sub _ _ = NaN"

fun num_lt :: "number \<Rightarrow> number \<Rightarrow> bool" where
  "num_lt (Num a) (Num b) = (a < b)"
| "num_lt _ _ = False"

fun num_ge :: "number \<Rightarrow> number \<Rightarrow> bool" where
  "num_ge (Num a) (Num b) = (a \<ge> b)"
| "num_ge _ _ = False"

fun num_gt :: "number \<Rightarrow> number \<Rightarrow> bool" where
  "num_gt (Num a) (Num b) = (a > b)"
| "num_gt _ _ = False"

text \<open>Strict equality \<open>===\<close> on numbers: \<open>NaN\<close> is not equal to itself.\<close>

fun num_eq :: "number \<Rightarrow> number \<Rightarrow> bool" where
  "num_eq (Num a) (Num b) = (a = b)"
| "num_eq _ _ = False"

text \<open>\<open>Number.isInteger\<close>.\<close>

fun Number_isInteger :: "number \<Rightarrow> bool" where
  "Number_isInteger (Num q) = (of_int \<lfloor>q\<rfloor> = q)"
| "Number_isInteger NaN = False"

abbreviation of_len :: "nat \<Rightarrow> number" where
  "of_len n \<equiv> Num (of_nat n)"

text \<open>The exception classes the code throws or receives from the platform.\<close>

datatype error = TypeError | RangeError | Error

type_synonym byte = "8 word"
type_synonym Buffer = "byte list"

subsection \<open>32-bit integer operators\<close>

text \<open>
  \<open>ToInt32\<close> of an integer, the operator \<open>&\<close> and the operator \<open><<\<close>: both operands are
  taken modulo \<open>2^32\<close>, the shift count modulo 32, and the result is read as a signed
  32-bit integer.
\<close>

definition js_and :: "int \<Rightarrow> int \<Rightarrow> int" where
  "js_and a b = sint ((word_of_int a :: 32 word) AND word_of_int b)"

definition js_shl :: "int \<Rightarrow> int \<Rightarrow> int" where
  "js_shl a n = sint (push_bit (nat (n mod 32)) (word_of_int a :: 32 word))"

section \<open>The platform's Buffer\<close>

text \<open>
  The class keeps its bytes in a Node.js \<open>Buffer\<close>, a fixed-length array of bytes.
  The functions of this section follow the documented behaviour of that interface:
  an allocation is zero-filled, element access outside the array reads \<open>undefined\<close>
  and ignores stores, and every \<open>readX\<close>/\<open>writeX\<close> accessor throws a \<open>RangeError\<close>
  unless its offset is an integer with \<open>0 \<le> offset \<le> length - width\<close>.
\<close>

text \<open>\<open>ToIntegerOrInfinity\<close>: truncation towards zero, \<open>NaN\<close> becomes 0.\<close>

fun to_integer :: "number \<Rightarrow> int" where
  "to_integer (Num q) = (if 0 \<le> q then \<lfloor>q\<rfloor> else \<lceil>q\<rceil>)"
| "to_integer NaN = 0"

text \<open>
  \<open>buffer.constants.MAX_LENGTH\<close>, the largest size \<open>Buffer.alloc\<close> accepts.  The value
  is that of 64-bit builds of current Node.js; older versions have \<open>2^32\<close> or less.
  The general statements below name the constant and do not depend on its value; the
  examples allocate a few bytes or more than this value.  A request under the limit
  that the machine cannot satisfy for lack of memory is outside the model.
\<close>

definition kMaxLength :: nat where
  "kMaxLength = 9007199254740991"

text \<open>
  \<open>Buffer.alloc(size)\<close>: a size that is negative, above the limit or \<open>NaN\<close> is
  rejected with a \<open>RangeError\<close>; a fractional size is truncated.
\<close>

fun Buffer_alloc :: "number \<Rightarrow> error + Buffer" where
  "Buffer_alloc (Num q) =
     (if 0 \<le> q \<and> q \<le> of_nat kMaxLength then Inr (replicate (nat \<lfloor>q\<rfloor>) 0)
      else Inl RangeError)"
| "Buffer_alloc NaN = Inl RangeError"

text \<open>\<open>source.copy(target)\<close>: the bytes of \<open>source\<close> overwrite the front of \<open>target\<close>.\<close>

definition Buffer_copy :: "Buffer \<Rightarrow> Buffer \<Rightarrow> Buffer" where
  "Buffer_copy source target = take (length target) source @ drop (length source) target"

text \<open>\<open>buf.slice(start, end)\<close>: negative indices count from the end, both are clamped.\<close>

definition clamp_index :: "nat \<Rightarrow> int \<Rightarrow> nat" where
  "clamp_index len i = (if i < 0 then nat (max 0 (int len + i)) else min (nat i) len)"

definition Buffer_slice :: "Buffer \<Rightarrow> number \<Rightarrow> number \<Rightarrow> Buffer" where
  "Buffer_slice buf start stop =
     (let s = clamp_index (length buf) (to_integer start);
          e = clamp_index (length buf) (to_integer stop)
      in take (e - s) (drop s buf))"

text \<open>Element access \<open>buf[i]\<close>: only an integer \<open>i\<close> with \<open>0 \<le> i < length\<close> names an element.\<close>

fun element_index :: "Buffer \<Rightarrow> number \<Rightarrow> nat option" where
  "element_index buf (Num q) =
     (if of_int \<lfloor>q\<rfloor> = q \<and> 0 \<le> q \<and> nat \<lfloor>q\<rfloor> < length buf then Some (nat \<lfloor>q\<rfloor>) else None)"
| "element_index buf NaN = None"

definition Buffer_get :: "Buffer \<Rightarrow> number \<Rightarrow> byte option" where
  "Buffer_get buf i = map_option (\<lambda>k. buf ! k) (element_index buf i)"


text \<open>The bounds check shared by the accessors of width \<open>k\<close>.\<close>

fun check_offset :: "Buffer \<Rightarrow> number \<Rightarrow> nat \<Rightarrow> error + nat" where
  "check_offset buf (Num q) k =
     (if of_int \<lfloor>q\<rfloor> = q \<and> 0 \<le> q \<and> nat \<lfloor>q\<rfloor> + k \<le> length buf
      then Inr (nat \<lfloor>q\<rfloor>) else Inl RangeError)"
| "check_offset buf NaN k = Inl RangeError"

definition read_field :: "Buffer \<Rightarrow> number \<Rightarrow> nat \<Rightarrow> error + byte list" where
  "read_field buf off k =
     (case check_offset buf off k of
        Inl e \<Rightarrow> Inl e
      | Inr i \<Rightarrow> Inr (take k (drop i buf)))"

definition write_field :: "Buffer \<Rightarrow> number \<Rightarrow> byte list \<Rightarrow> error + Buffer" where
  "write_field buf off bs =
     (case check_offset buf off (length bs) of
        Inl e \<Rightarrow> Inl e
      | Inr i \<Rightarrow> Inr (take i buf @ bs @ drop (i + length bs) buf))"

text \<open>Byte order: the value of a byte sequence and the \<open>k\<close> low bytes of a value.\<close>

definition be_value :: "byte list \<Rightarrow> nat" where
  "be_value bs = foldl (\<lambda>acc b. acc * 256 + unat b) 0 bs"

definition le_value :: "byte list \<Rightarrow> nat" where
  "le_value bs = be_value (rev bs)"

fun le_bytes :: "nat \<Rightarrow> nat \<Rightarrow> byte list" where
  "le_bytes 0 n = []"
| "le_bytes (Suc k) n = of_nat (n mod 256) # le_bytes k (n div 256)"

definition be_bytes :: "nat \<Rightarrow> nat \<Rightarrow> byte list" where
  "be_bytes k n = rev (le_bytes k n)"

definition to_signed :: "nat \<Rightarrow> nat \<Rightarrow> int" where
  "to_signed bits n = (if 2 ^ (bits - 1) \<le> n then int n - 2 ^ bits else int n)"


subsection \<open>Integer readers\<close>

definition Buffer_readInt8 :: "Buffer \<Rightarrow> number \<Rightarrow> error + int" where
  "Buffer_readInt8 buf off = map_sum id (\<lambda>bs. to_signed 8 (be_value bs)) (read_field buf off 1)"

definition Buffer_readUInt8 :: "Buffer \<Rightarrow> number \<Rightarrow> error + int" where
  "Buffer_readUInt8 buf off = map_sum id (\<lambda>bs. int (be_value bs)) (read_field buf off 1)"

definition Buffer_readInt16BE :: "Buffer \<Rightarrow> number \<Rightarrow> error + int" where
  "Buffer_readInt16BE buf off = map_sum id (\<lambda>bs. to_signed 16 (be_value bs)) (read_field buf off 2)"

definition Buffer_readInt16LE :: "Buffer \<Rightarrow> number \<Rightarrow> error + int" where
  "Buffer_readInt16LE buf off = map_sum id (\<lambda>bs. to_signed 16 (le_value bs)) (read_field buf off 2)"

definition Buffer_readUInt16BE :: "Buffer \<Rightarrow> number \<Rightarrow> error + int" where
  "Buffer_readUInt16BE buf off = map_sum id (\<lambda>bs. int (be_value bs)) (read_field buf off 2)"

definition Buffer_readUInt16LE :: "Buffer \<Rightarrow> number \<Rightarrow> error + int" where
  "Buffer_readUInt16LE buf off = map_sum id (\<lambda>bs. int (le_value bs)) (read_field buf off 2)"

definition Buffer_readInt32BE :: "Buffer \<Rightarrow> number \<Rightarrow> error + int" where
  "Buffer_readInt32BE buf off = map_sum id (\<lambda>bs. to_signed 32 (be_value bs)) (read_field buf off 4)"

definition Buffer_readInt32LE :: "Buffer \<Rightarrow> number \<Rightarrow> error + int" where
  "Buffer_readInt32LE buf off = map_sum id (\<lambda>bs. to_signed 32 (le_value bs)) (read_field buf off 4)"

definition Buffer_readUInt32BE :: "Buffer \<Rightarrow> number \<Rightarrow> error + int" where
  "Buffer_readUInt32BE buf off = map_sum id (\<lambda>bs. int (be_value bs)) (read_field buf off 4)"

definition Buffer_readUInt32LE :: "Buffer \<Rightarrow> number \<Rightarrow> error + int" where
  "Buffer_readUInt32LE buf off = map_sum id (\<lambda>bs. int (le_value bs)) (read_field buf off 4)"

definition Buffer_readBigInt64BE :: "Buffer \<Rightarrow> number \<Rightarrow> error + int" where
  "Buffer_readBigInt64BE buf off = map_sum id (\<lambda>bs. to_signed 64 (be_value bs)) (read_field buf off 8)"

definition Buffer_readBigInt64LE :: "Buffer \<Rightarrow> number \<Rightarrow> error + int" where
  "Buffer_readBigInt64LE buf off = map_sum id (\<lambda>bs. to_signed 64 (le_value bs)) (read_field buf off 8)"

definition Buffer_readBigUInt64BE :: "Buffer \<Rightarrow> number \<Rightarrow> error + int" where
  "Buffer_readBigUInt64BE buf off = map_sum id (\<lambda>bs. int (be_value bs)) (read_field buf off 8)"

definition Buffer_readBigUInt64LE :: "Buffer \<Rightarrow> number \<Rightarrow> error + int" where
  "Buffer_readBigUInt64LE buf off = map_sum id (\<lambda>bs. int (le_value bs)) (read_field buf off 8)"

subsection \<open>Integer writers\<close>













subsection \<open>The single-precision writer, on integers\<close>

text \<open>
  \<open>writeFloatBE\<close> and \<open>writeFloatLE\<close> store the IEEE 754 single-precision encoding of
  their argument.  The values written are integers here, and on an integer the encoding
  is exact arithmetic: the exponent is the position of the leading bit, the
  significand keeps 24 bits, rounded to nearest with ties to even, and a magnitude
  beyond the largest finite value becomes infinity.
\<close>

fun bit_length :: "nat \<Rightarrow> nat" where
  "bit_length n = (if n = 0 then 0 else Suc (bit_length (n div 2)))"

definition round_half_even :: "nat \<Rightarrow> nat \<Rightarrow> nat" where
  "round_half_even n s =
     (let q = n div 2 ^ s; r = n mod 2 ^ s; half = 2 ^ (s - 1)
      in if half < r \<or> (r = half \<and> odd q) then q + 1 else q)"

definition float32_bits :: "int \<Rightarrow> nat" where
  "float32_bits v =
     (let sign = (if v < 0 then 2 ^ 31 else 0); n = nat \<bar>v\<bar>
      in if n = 0 then 0
         else
           (let e = bit_length n - 1;
                sig = (if e \<le> 23 then n * 2 ^ (23 - e) else round_half_even n (e - 23));
                bits = (e + 127) * 2 ^ 23 + (sig - 2 ^ 23)
            in if 255 * 2 ^ 23 \<le> bits then sign + 255 * 2 ^ 23 else sign + bits))"

definition Buffer_writeFloatBE :: "Buffer \<Rightarrow> int \<Rightarrow> number \<Rightarrow> error + Buffer" where
  "Buffer_writeFloatBE buf v off = write_field buf off (be_bytes 4 (float32_bits v))"

definition Buffer_writeFloatLE :: "Buffer \<Rightarrow> int \<Rightarrow> number \<Rightarrow> error + Buffer" where
  "Buffer_writeFloatLE buf v off = write_field buf off (le_bytes 4 (float32_bits v))"




text \<open>
  \<open>Number(x)\<close> of a 64-bit integer \<open>x\<close>: the nearest double, ties to even.  Below
  \<open>2^53\<close> in magnitude that is \<open>x\<close> itself; above, the low bits are rounded away.
\<close>

definition Number_of_BigInt :: "int \<Rightarrow> int" where
  "Number_of_BigInt x =
     (let n = nat \<bar>x\<bar>
      in if n < 2 ^ 53 then x
         else (let s = bit_length n - 53 in sgn x * int (round_half_even n s * 2 ^ s)))"

subsection \<open>Strings\<close>





section \<open>The ByteArray class\<close>

text \<open>
  The class as \<open>src/index.ts\<close> has it, one accessor call per method and byte order.
  The repository holds a second copy of the class in which the fixed-width methods go
  through one dispatcher that receives the accessor's name and width; that copy passes
  width 8 for \<open>readLong\<close> and the accessor \<open>writeInt32\<close> for \<open>writeInt\<close>.  Values
  written are integers; cursor, offsets and lengths are numbers.

  The methods that work on one object are functions of that object taken alone: its
  cursor, its settings and the bytes its Buffer shows.  \<open>readBytes\<close>, which works on
  two objects whose Buffers may show the same bytes, is a function of a heap, at the
  end of this section.
\<close>

datatype Endian = LITTLE_ENDIAN | BIG_ENDIAN

datatype ObjectEncoding = AMF0 | AMF3

record 'buffer ByteArray_of =
  position :: number
  endian :: Endian
  objectEncoding :: ObjectEncoding
  buffer :: 'buffer

type_synonym ByteArray = "Buffer ByteArray_of"

text \<open>
  A method returns its value, or the exception it threw, together with the object as
  the call left it: a throw keeps every assignment made before it.
\<close>

type_synonym 'a result = "(error + 'a) \<times> ByteArray"

text \<open>
  The constructor's argument: a Buffer, an array of numbers, or a number.  \<open>convert\<close>
  returns a Buffer as it is, copies an array into a new Buffer and allocates a Buffer
  of the size of an integer.  For an object taken alone the Buffer is its bytes; on
  the heap, \<open>convert_in\<close> keeps the window it is given.
\<close>

datatype 'buffer source = FromBuffer 'buffer | FromArray "int list" | FromNumber number

fun convert :: "Buffer source \<Rightarrow> error + Buffer" where
  "convert (FromBuffer v) = Inr v"
| "convert (FromArray v) = Inr (map word_of_int v)"
| "convert (FromNumber v) = (if Number_isInteger v then Buffer_alloc v else Buffer_alloc (Num 0))"

definition new_ByteArray :: "Buffer source \<Rightarrow> error + ByteArray" where
  "new_ByteArray v =
     (case convert v of
        Inl e \<Rightarrow> Inl e
      | Inr buf \<Rightarrow> Inr \<lparr>position = Num 0, endian = BIG_ENDIAN, objectEncoding = AMF3, buffer = buf\<rparr>)"

definition getPosition :: "ByteArray \<Rightarrow> number" where
  "getPosition b = position b"

definition setPosition :: "number \<Rightarrow> ByteArray \<Rightarrow> unit result" where
  "setPosition v b =
     (if num_ge v (Num 0) then (Inr (), b\<lparr>position := v\<rparr>) else (Inl TypeError, b))"

definition getEndian :: "ByteArray \<Rightarrow> Endian" where
  "getEndian b = endian b"

definition setEndian :: "string \<Rightarrow> ByteArray \<Rightarrow> unit result" where
  "setEndian v b =
     (if v = ''LE'' then (Inr (), b\<lparr>endian := LITTLE_ENDIAN\<rparr>)
      else if v = ''BE'' then (Inr (), b\<lparr>endian := BIG_ENDIAN\<rparr>)
      else (Inl TypeError, b))"

definition getLength :: "ByteArray \<Rightarrow> number" where
  "getLength b = of_len (length (buffer b))"

definition getBytesAvailable :: "ByteArray \<Rightarrow> number" where
  "getBytesAvailable b = num_sub (getLength b) (position b)"

definition clear :: "ByteArray \<Rightarrow> unit result" where
  "clear b =
     (case Buffer_alloc (Num 0) of
        Inl e \<Rightarrow> (Inl e, b)
      | Inr new \<Rightarrow> (Inr (), b\<lparr>buffer := new, position := Num 0\<rparr>))"

definition expand :: "number \<Rightarrow> ByteArray \<Rightarrow> unit result" where
  "expand v b =
     (if num_lt (getBytesAvailable b) v then
        (let old = buffer b;
             size = num_add (of_len (length old)) (num_sub v (getBytesAvailable b))
         in case Buffer_alloc size of
              Inl e \<Rightarrow> (Inl e, b)
            | Inr new \<Rightarrow> (Inr (), b\<lparr>buffer := Buffer_copy old new\<rparr>))
      else (Inr (), b))"

definition setLength :: "number \<Rightarrow> ByteArray \<Rightarrow> unit result" where
  "setLength v b =
     (if \<not> Number_isInteger v \<or> num_lt v (Num 0) then (Inl TypeError, b)
      else if num_eq v (Num 0) then clear b
      else if \<not> num_eq v (getLength b) then
        (if num_lt v (getLength b) then
           (let b1 = b\<lparr>buffer := Buffer_slice (buffer b) (Num 0) v\<rparr>
            in (Inr (), b1\<lparr>position := getLength b1\<rparr>))
         else expand v b)
      else (Inr (), b))"

text \<open>
  \<open>signedOverflow(value, bits)\<close>:
  \<^verbatim>\<open>const sign = 1 << (bits - 1); return (value & (sign - 1)) - (value & sign);\<close>
\<close>

definition signedOverflow :: "int \<Rightarrow> int \<Rightarrow> int" where
  "signedOverflow v bits =
     (let sign = js_shl 1 (bits - 1)
      in js_and v (sign - 1) - js_and v sign)"

subsection \<open>Reading\<close>

text \<open>
  \<open>readByte\<close> and \<open>readUnsignedByte\<close> pass \<open>this.position++\<close> as the offset: the
  cursor has moved before the accessor runs, also when the accessor throws.  The wider
  readers add the width after the accessor has returned.
\<close>

definition readByte :: "ByteArray \<Rightarrow> int result" where
  "readByte b =
     (let p = position b; b1 = b\<lparr>position := num_add p (Num 1)\<rparr>
      in (Buffer_readInt8 (buffer b1) p, b1))"

definition readBoolean :: "ByteArray \<Rightarrow> bool result" where
  "readBoolean b = (case readByte b of (r, b1) \<Rightarrow> (map_sum id (\<lambda>v. v \<noteq> 0) r, b1))"

definition readUnsignedByte :: "ByteArray \<Rightarrow> int result" where
  "readUnsignedByte b =
     (let p = position b; b1 = b\<lparr>position := num_add p (Num 1)\<rparr>
      in (Buffer_readUInt8 (buffer b1) p, b1))"

definition readShort :: "ByteArray \<Rightarrow> int result" where
  "readShort b =
     (case (if getEndian b = BIG_ENDIAN then Buffer_readInt16BE (buffer b) (position b)
            else Buffer_readInt16LE (buffer b) (position b)) of
        Inl e \<Rightarrow> (Inl e, b)
      | Inr v \<Rightarrow> (Inr v, b\<lparr>position := num_add (position b) (Num 2)\<rparr>))"

definition readUnsignedShort :: "ByteArray \<Rightarrow> int result" where
  "readUnsignedShort b =
     (case (if getEndian b = BIG_ENDIAN then Buffer_readUInt16BE (buffer b) (position b)
            else Buffer_readUInt16LE (buffer b) (position b)) of
        Inl e \<Rightarrow> (Inl e, b)
      | Inr v \<Rightarrow> (Inr v, b\<lparr>position := num_add (position b) (Num 2)\<rparr>))"

definition readInt :: "ByteArray \<Rightarrow> int result" where
  "readInt b =
     (case (if getEndian b = BIG_ENDIAN then Buffer_readInt32BE (buffer b) (position b)
            else Buffer_readInt32LE (buffer b) (position b)) of
        Inl e \<Rightarrow> (Inl e, b)
      | Inr v \<Rightarrow> (Inr v, b\<lparr>position := num_add (position b) (Num 4)\<rparr>))"

definition readUnsignedInt :: "ByteArray \<Rightarrow> int result" where
  "readUnsignedInt b =
     (case (if getEndian b = BIG_ENDIAN then Buffer_readUInt32BE (buffer b) (position b)
            else Buffer_readUInt32LE (buffer b) (position b)) of
        Inl e \<Rightarrow> (Inl e, b)
      | Inr v \<Rightarrow> (Inr v, b\<lparr>position := num_add (position b) (Num 4)\<rparr>))"

text \<open>
  \<open>readLong\<close> and \<open>readUnsignedLong\<close> convert the 64-bit integer they read with
  \<open>Number(...)\<close>.  The statement after the read in \<open>readLong\<close> is
  \<^verbatim>\<open>this.position += 4\<close>.
\<close>

definition readLong :: "ByteArray \<Rightarrow> int result" where
  "readLong b =
     (case (if getEndian b = BIG_ENDIAN
            then map_sum id Number_of_BigInt (Buffer_readBigInt64BE (buffer b) (position b))
            else map_sum id Number_of_BigInt (Buffer_readBigInt64LE (buffer b) (position b))) of
        Inl e \<Rightarrow> (Inl e, b)
      | Inr v \<Rightarrow> (Inr v, b\<lparr>position := num_add (position b) (Num 4)\<rparr>))"

definition readUnsignedLong :: "ByteArray \<Rightarrow> int result" where
  "readUnsignedLong b =
     (case (if getEndian b = BIG_ENDIAN
            then map_sum id Number_of_BigInt (Buffer_readBigUInt64BE (buffer b) (position b))
            else map_sum id Number_of_BigInt (Buffer_readBigUInt64LE (buffer b) (position b))) of
        Inl e \<Rightarrow> (Inl e, b)
      | Inr v \<Rightarrow> (Inr v, b\<lparr>position := num_add (position b) (Num 8)\<rparr>))"

subsection \<open>Writing\<close>






definition writeInt :: "int \<Rightarrow> ByteArray \<Rightarrow> unit result" where
  "writeInt v b =
     (case expand (Num 4) b of
        (Inl e, b1) \<Rightarrow> (Inl e, b1)
      | (Inr _, b1) \<Rightarrow>
          (case (if getEndian b1 = BIG_ENDIAN
                 then Buffer_writeFloatBE (buffer b1) (signedOverflow v 32) (position b1)
                 else Buffer_writeFloatLE (buffer b1) (signedOverflow v 32) (position b1)) of
             Inl e \<Rightarrow> (Inl e, b1)
           | Inr new \<Rightarrow> (Inr (), b1\<lparr>buffer := new, position := num_add (position b1) (Num 4)\<rparr>)))"






subsection \<open>Multi-byte strings\<close>


subsection \<open>Bulk copy between two objects\<close>

text \<open>
  \<open>readBytes\<close> mutates the receiver and the object passed to it, which may be the same
  object; and two objects may hold Buffers that show the same bytes, since the
  constructor keeps the Buffer it is given and a Buffer is a view, \<open>byteOffset\<close> and
  \<open>length\<close>, of an array of bytes.  For this method the objects live in a heap,
  addressed by reference; the heap has one memory, the bytes of all arrays, and the
  Buffer of an object is a window on it.  An allocation takes fresh bytes at the end
  of the memory.  The methods above, which work on one object, see the bytes its
  window shows (\<open>object_at\<close>).
\<close>

type_synonym ref = nat

record window =
  byteOffset :: nat
  byteLength :: nat

record heap =
  objects :: "ref \<Rightarrow> window ByteArray_of"
  memory :: "byte list"

definition bytes_of :: "byte list \<Rightarrow> window \<Rightarrow> Buffer" where
  "bytes_of m w = take (byteLength w) (drop (byteOffset w) m)"

definition object_at :: "heap \<Rightarrow> ref \<Rightarrow> ByteArray" where
  "object_at H r =
     \<lparr>position = position (objects H r), endian = endian (objects H r),
      objectEncoding = objectEncoding (objects H r),
      buffer = bytes_of (memory H) (buffer (objects H r))\<rparr>"

text \<open>
  \<open>Buffer.alloc\<close>, \<open>source.copy(target)\<close> and element access \<open>buf[i]\<close> on windows.
  \<open>copy\<close> reads all its bytes before it writes.
\<close>

definition Buffer_alloc_in :: "number \<Rightarrow> byte list \<Rightarrow> error + window \<times> byte list" where
  "Buffer_alloc_in n m =
     (case Buffer_alloc n of
        Inl e \<Rightarrow> Inl e
      | Inr new \<Rightarrow> Inr (\<lparr>byteOffset = length m, byteLength = length new\<rparr>, m @ new))"

definition Buffer_copy_in :: "window \<Rightarrow> window \<Rightarrow> byte list \<Rightarrow> byte list" where
  "Buffer_copy_in source target m =
     (let n = min (byteLength source) (byteLength target)
      in take (byteOffset target) m @ take n (drop (byteOffset source) m)
         @ drop (byteOffset target + n) m)"

definition Buffer_get_in :: "byte list \<Rightarrow> window \<Rightarrow> number \<Rightarrow> byte option" where
  "Buffer_get_in m w i = Buffer_get (bytes_of m w) i"

definition Buffer_set_in :: "byte list \<Rightarrow> window \<Rightarrow> number \<Rightarrow> byte option \<Rightarrow> byte list" where
  "Buffer_set_in m w i v =
     (case element_index (bytes_of m w) i of
        None \<Rightarrow> m
      | Some k \<Rightarrow> m[byteOffset w + k := (case v of None \<Rightarrow> 0 | Some x \<Rightarrow> x)])"

text \<open>
  The constructor on the heap: a Buffer passed to it is kept as it is, the same window;
  an array or a number gives a new Buffer.
\<close>

fun convert_in :: "window source \<Rightarrow> byte list \<Rightarrow> error + window \<times> byte list" where
  "convert_in (FromBuffer v) m = Inr (v, m)"
| "convert_in (FromArray v) m =
     Inr (\<lparr>byteOffset = length m, byteLength = length v\<rparr>, m @ map word_of_int v)"
| "convert_in (FromNumber v) m =
     (if Number_isInteger v then Buffer_alloc_in v m else Buffer_alloc_in (Num 0) m)"

definition new_ByteArray_at :: "ref \<Rightarrow> window source \<Rightarrow> heap \<Rightarrow> error + heap" where
  "new_ByteArray_at r v H =
     (case convert_in v (memory H) of
        Inl e \<Rightarrow> Inl e
      | Inr (buf, m) \<Rightarrow>
          Inr (H\<lparr>objects := (objects H)
                     (r := \<lparr>position = Num 0, endian = BIG_ENDIAN, objectEncoding = AMF3,
                            buffer = buf\<rparr>),
                 memory := m\<rparr>))"

text \<open>\<open>getLength\<close>, \<open>getBytesAvailable\<close> and \<open>expand\<close> of the object at a reference.\<close>

definition getLength_at :: "heap \<Rightarrow> ref \<Rightarrow> number" where
  "getLength_at H r = of_len (byteLength (buffer (objects H r)))"

definition getBytesAvailable_at :: "heap \<Rightarrow> ref \<Rightarrow> number" where
  "getBytesAvailable_at H r = num_sub (getLength_at H r) (position (objects H r))"

definition expand_at :: "number \<Rightarrow> ref \<Rightarrow> heap \<Rightarrow> (error + unit) \<times> heap" where
  "expand_at v r H =
     (if num_lt (getBytesAvailable_at H r) v then
        (let old = buffer (objects H r);
             size = num_add (of_len (byteLength old)) (num_sub v (getBytesAvailable_at H r))
         in case Buffer_alloc_in size (memory H) of
              Inl e \<Rightarrow> (Inl e, H)
            | Inr (new, m) \<Rightarrow>
                (Inr (), H\<lparr>objects := (objects H)(r := (objects H r)\<lparr>buffer := new\<rparr>),
                           memory := Buffer_copy_in old new m\<rparr>))
      else (Inr (), H))"

text \<open>
  The loop
  \<^verbatim>\<open>for (let i = 0; i < length; i++) bytes.buffer[i + offset] = this.buffer[i + this.position]\<close>
  is the recursion \<open>copy_loop\<close> on \<open>i\<close>.
\<close>

function copy_loop :: "ref \<Rightarrow> ref \<Rightarrow> number \<Rightarrow> number \<Rightarrow> nat \<Rightarrow> heap \<Rightarrow> heap" where
  "copy_loop this bytes offset len i H =
     (if num_lt (of_len i) len then
        copy_loop this bytes offset len (Suc i)
          (H\<lparr>memory :=
               Buffer_set_in (memory H) (buffer (objects H bytes)) (num_add (of_len i) offset)
                 (Buffer_get_in (memory H) (buffer (objects H this))
                    (num_add (of_len i) (position (objects H this))))\<rparr>)
      else H)"
  by pat_completeness auto
termination
proof (relation "measure (\<lambda>(this, bytes, offset, len, i, H).
                    case len of Num q \<Rightarrow> nat \<lceil>q\<rceil> - i | NaN \<Rightarrow> 0)")
  show "wf (measure (\<lambda>(this, bytes, offset, len, i, H).
                    case len of Num q \<Rightarrow> nat \<lceil>q\<rceil> - i | NaN \<Rightarrow> 0))"
    by simp
next
  fix this bytes :: ref and offset len :: number and i :: nat and H :: heap
  assume "num_lt (of_len i) len"
  then obtain q where q: "len = Num q" "of_nat i < q"
    by (cases len) auto
  have "of_nat i < (of_int \<lceil>q\<rceil> :: rat)"
    using q(2) le_of_int_ceiling [of q] by (rule less_le_trans)
  then have "int i < \<lceil>q\<rceil>"
    by (metis of_int_less_iff of_int_of_nat_eq)
  then show "((this, bytes, offset, len, Suc i,
               H\<lparr>memory :=
                  Buffer_set_in (memory H) (buffer (objects H bytes)) (num_add (of_len i) offset)
                    (Buffer_get_in (memory H) (buffer (objects H this))
                       (num_add (of_len i) (position (objects H this))))\<rparr>),
              (this, bytes, offset, len, i, H))
             \<in> measure (\<lambda>(this, bytes, offset, len, i, H).
                    case len of Num q \<Rightarrow> nat \<lceil>q\<rceil> - i | NaN \<Rightarrow> 0)"
    using q(1) by simp
qed

declare copy_loop.simps [simp del]

definition readBytes :: "ref \<Rightarrow> ref \<Rightarrow> number \<Rightarrow> number \<Rightarrow> heap \<Rightarrow> (error + unit) \<times> heap" where
  "readBytes this bytes offset len0 H =
     (let len = (if num_eq len0 (Num 0) then getBytesAvailable_at H this else len0)
      in if num_gt len (getBytesAvailable_at H this) then (Inl RangeError, H)
         else
           (case (if num_lt (getLength_at H bytes) (num_add offset len)
                  then expand_at (num_add offset len) bytes H
                  else (Inr (), H)) of
              (Inl e, H1) \<Rightarrow> (Inl e, H1)
            | (Inr _, H1) \<Rightarrow>
                (let H2 = copy_loop this bytes offset len 0 H1
                 in (Inr (),
                     H2\<lparr>objects := (objects H2)
                           (this := (objects H2 this)
                              \<lparr>position := num_add (position (objects H2 this)) len\<rparr>)\<rparr>))))"

section \<open>Vocabulary of the properties\<close>

subsection \<open>A write followed by a read\<close>

text \<open>
  The round trip of a signed int: a new object over an empty array, the byte order
  set, \<open>writeInt(v)\<close>, the cursor moved back to 0, \<open>readInt()\<close>.
\<close>

definition write_then_read_int :: "string \<Rightarrow> int \<Rightarrow> error + int" where
  "write_then_read_int order v =
     (case new_ByteArray (FromArray []) of
        Inl e \<Rightarrow> Inl e
      | Inr b0 \<Rightarrow>
          (case setEndian order b0 of
             (Inl e, _) \<Rightarrow> Inl e
           | (Inr _, b1) \<Rightarrow>
               (case writeInt v b1 of
                  (Inl e, _) \<Rightarrow> Inl e
                | (Inr _, b2) \<Rightarrow>
                    (case setPosition (Num 0) b2 of
                       (Inl e, _) \<Rightarrow> Inl e
                     | (Inr _, b3) \<Rightarrow> fst (readInt b3)))))"

subsection \<open>A write at a cursor beyond the end\<close>


text \<open>The bytes of a value in the byte order of the object.\<close>

definition ordered_bytes :: "Endian \<Rightarrow> nat \<Rightarrow> nat \<Rightarrow> byte list" where
  "ordered_bytes e k n = (if e = BIG_ENDIAN then be_bytes k n else le_bytes k n)"

subsection \<open>A bulk copy\<close>


definition valid_window :: "byte list \<Rightarrow> window \<Rightarrow> bool" where
  "valid_window m w \<longleftrightarrow> byteOffset w + byteLength w \<le> length m"

definition valid_heap :: "heap \<Rightarrow> bool" where
  "valid_heap H \<longleftrightarrow> (\<forall>r. valid_window (memory H) (buffer (objects H r)))"







section \<open>Properties\<close>

subsection \<open>Signed overflow\<close>

text \<open>
  The operators \<open>&\<close> and \<open><<\<close> in terms of integer bit operations, and what
  \<open>signedOverflow\<close> computes at the three widths the class uses: the signed value of
  the low 8 or 16 bits, but the \<^emph>\<open>unsigned\<close> value of the low 32 bits.
\<close>

lemma js_and_int: "js_and a b = signed_take_bit 31 (a AND b)"
  by (simp add: js_and_def word_wi_log_defs sint_sbintrunc')





lemma signed_take_bit_and_not_exp:
  "signed_take_bit n ((v::int) AND NOT (2 ^ n)) = take_bit n v"
  by (rule bit_eqI)
    (auto simp: bit_signed_take_bit_iff bit_and_iff bit_not_iff bit_exp_iff bit_take_bit_iff min_def)

lemma signed_take_bit_and_minus_exp:
  "signed_take_bit n ((v::int) AND - (2 ^ n)) = - (2 ^ n) * of_bool (bit v n)"
  by (rule bit_eqI)
    (auto simp: bit_signed_take_bit_iff bit_and_iff bit_minus_exp_iff min_def)



lemma signedOverflow_32: "signedOverflow v 32 = take_bit 32 v"
proof -
  have s: "js_shl 1 31 = - 2147483648" by (simp add: js_shl_def)
  have a: "js_and v (- 2147483649) = take_bit 31 v"
    using signed_take_bit_and_not_exp [of 31 v] by (simp add: js_and_int)
  have b: "js_and v (- 2147483648) = - (2 ^ 31) * of_bool (bit v 31)"
    using signed_take_bit_and_minus_exp [of 31 v] by (simp add: js_and_int)
  have "take_bit 32 v = 2 ^ 31 * of_bool (bit v 31) + take_bit 31 v"
    using take_bit_Suc_from_most [of 31 v] by simp
  with s a b show ?thesis
    by (simp add: signedOverflow_def)
qed





text \<open>
  C4: the reference values of the standalone \<open>signedOverflow\<close> utility.  Widths 8 and
  16 give the stated results; at width 32 the sign mask \<open>1 << 31\<close> is itself negative,
  so input \<open>2^31\<close> yields \<open>+2^31\<close>, not \<open>-2^31\<close>.
\<close>

theorem signedOverflow_reference_values:
  "signedOverflow 200 8 = -56 \<and> signedOverflow 40000 16 = -25536
   \<and> signedOverflow 2147483648 32 = 2147483648"
  by (simp add: signedOverflow_def js_and_def js_shl_def)

subsection \<open>Offsets and bytes\<close>

lemma check_offset_Inr_iff:
  "check_offset buf off k = Inr i \<longleftrightarrow> off = of_len i \<and> i + k \<le> length buf"
proof (cases off)
  case NaN
  then show ?thesis by simp
next
  case (Num q)
  show ?thesis
  proof (cases "of_int \<lfloor>q\<rfloor> = q \<and> 0 \<le> q")
    case True
    then have "0 \<le> \<lfloor>q\<rfloor>" by simp
    then have n: "of_nat (nat \<lfloor>q\<rfloor>) = (of_int \<lfloor>q\<rfloor> :: rat)" by simp
    from True have e: "of_int \<lfloor>q\<rfloor> = q" by (rule conjunct1)
    have q: "q = of_nat (nat \<lfloor>q\<rfloor>)" by (simp only: n e)
    have "check_offset buf off k =
            (if nat \<lfloor>q\<rfloor> + k \<le> length buf then Inr (nat \<lfloor>q\<rfloor>) else Inl RangeError)"
      using True Num by (simp only: check_offset.simps simp_thms)
    moreover have "q = of_nat i \<longleftrightarrow> nat \<lfloor>q\<rfloor> = i"
      using q by (metis floor_of_nat nat_int)
    ultimately show ?thesis using Num by auto
  next
    case False
    then have "\<not> (of_int \<lfloor>q\<rfloor> = q \<and> 0 \<le> q \<and> nat \<lfloor>q\<rfloor> + k \<le> length buf)"
      by blast
    then have "check_offset buf off k = Inl RangeError"
      unfolding Num check_offset.simps by (rule if_not_P)
    moreover have "q \<noteq> of_nat i"
    proof
      assume "q = of_nat i"
      then have "of_int \<lfloor>q\<rfloor> = q \<and> 0 \<le> q" by simp
      with False show False by (rule notE)
    qed
    ultimately show ?thesis using Num by simp
  qed
qed

lemma check_offset_cases:
  "check_offset buf off k = Inl RangeError
   \<or> (\<exists>i. off = of_len i \<and> i + k \<le> length buf \<and> check_offset buf off k = Inr i)"
  by (metis check_offset.elims check_offset_Inr_iff)

lemma length_le_bytes [simp]: "length (le_bytes k n) = k"
  by (induction k arbitrary: n) simp_all

lemma length_be_bytes [simp]: "length (be_bytes k n) = k"
  by (simp add: be_bytes_def)

lemma length_ordered_bytes [simp]: "length (ordered_bytes e k n) = k"
  by (simp add: ordered_bytes_def)

lemma le_bytes_4:
  "le_bytes 4 n = [of_nat (n mod 256), of_nat (n div 256 mod 256),
                   of_nat (n div 256 div 256 mod 256), of_nat (n div 256 div 256 div 256 mod 256)]"
proof -
  have "(4::nat) = Suc (Suc (Suc (Suc 0)))" by simp
  then show ?thesis by (simp only: le_bytes.simps)
qed

lemma replicate_4: "replicate 4 x = [x, x, x, x]"
  by (simp add: numeral_eq_Suc)

subsection \<open>Cursor and length\<close>

text \<open>
  C10, as the code has it: \<open>setPosition(v)\<close> is accepted exactly when \<open>v >= 0\<close> holds.
  It fails for a negative \<open>v\<close> and for \<open>NaN\<close>; every non-negative number, integer or
  not, becomes the new position; a rejected call throws \<open>TypeError\<close> and changes
  nothing.
\<close>

theorem setPosition_accepts_nonnegative:
  "(fst (setPosition (Num q) b) = Inl TypeError \<longleftrightarrow> q < 0)
   \<and> (q < 0 \<longrightarrow> setPosition (Num q) b = (Inl TypeError, b))
   \<and> (0 \<le> q \<longrightarrow> setPosition (Num q) b = (Inr (), b\<lparr>position := Num q\<rparr>))
   \<and> setPosition NaN b = (Inl TypeError, b)"
  by (simp add: setPosition_def)

text \<open>
  At 1.5 the call stores 1.5; at -1 it throws and the object, cursor at 7, is as it
  was.
\<close>

theorem setPosition_accepts_nonnegative_witness:
  "(0::rat) \<le> 3 / 2
   \<and> setPosition (Num (3 / 2))
        \<lparr>position = Num 7, endian = BIG_ENDIAN, objectEncoding = AMF3, buffer = [1, 2]\<rparr>
      = (Inr (), \<lparr>position = Num (3 / 2), endian = BIG_ENDIAN, objectEncoding = AMF3,
                   buffer = [1, 2]\<rparr>)
   \<and> (- 1 :: rat) < 0
   \<and> setPosition (Num (- 1))
        \<lparr>position = Num 7, endian = BIG_ENDIAN, objectEncoding = AMF3, buffer = [1, 2]\<rparr>
      = (Inl TypeError, \<lparr>position = Num 7, endian = BIG_ENDIAN, objectEncoding = AMF3,
                          buffer = [1, 2]\<rparr>)"
  using setPosition_accepts_nonnegative [of "3 / 2"
      "\<lparr>position = Num 7, endian = BIG_ENDIAN, objectEncoding = AMF3, buffer = [1, 2]\<rparr>"]
    setPosition_accepts_nonnegative [of "- 1"
      "\<lparr>position = Num 7, endian = BIG_ENDIAN, objectEncoding = AMF3, buffer = [1, 2]\<rparr>"]
  by simp

text \<open>
  C10 as stated fails at \<open>NaN\<close>: the call is rejected although \<open>NaN < 0\<close> is false.
\<close>

theorem setPosition_NaN_counterexample:
  "fst (setPosition NaN
          \<lparr>position = Num 0, endian = BIG_ENDIAN, objectEncoding = AMF3, buffer = [1, 2]\<rparr>)
     = Inl TypeError
   \<and> \<not> num_lt NaN (Num 0)"
  by (simp add: setPosition_def)

text \<open>
  C6: for every non-negative integer \<open>n\<close> below the current length, \<open>setLength(n)\<close>
  keeps the first \<open>n\<close> bytes and puts the cursor at \<open>n\<close>, whatever the cursor was.
\<close>

theorem setLength_truncates:
  assumes "n < length (buffer b)"
  shows "setLength (of_len n) b
           = (Inr (), b\<lparr>buffer := take n (buffer b), position := of_len n\<rparr>)"
  using assms
  by (auto simp: setLength_def clear_def getLength_def Buffer_slice_def clamp_index_def min_def)

theorem setLength_truncates_witness:
  "(1::nat) < length [1, 2, 3 :: byte]
   \<and> setLength (Num 1)
        \<lparr>position = Num 3, endian = BIG_ENDIAN, objectEncoding = AMF3, buffer = [1, 2, 3]\<rparr>
      = (Inr (), \<lparr>position = Num 1, endian = BIG_ENDIAN, objectEncoding = AMF3, buffer = [1]\<rparr>)"
  using setLength_truncates [of 1
      "\<lparr>position = Num 3, endian = BIG_ENDIAN, objectEncoding = AMF3, buffer = [1, 2, 3]\<rparr>"]
  by simp

text \<open>
  \<open>expand(k)\<close> with the cursor at \<open>p\<close> and fewer than \<open>k\<close> bytes after it, when the
  platform accepts the size \<open>p + k\<close>: the new buffer has \<open>p + k\<close> bytes, the old ones in
  front, zeros behind.
\<close>

lemma of_nat_diff_less: "(of_nat a :: rat) - of_nat b < of_nat c \<longleftrightarrow> a < b + c"
proof -
  have "(of_nat a :: rat) - of_nat b < of_nat c \<longleftrightarrow> (of_nat a :: rat) < of_nat (b + c)"
    by auto
  then show ?thesis by (simp only: of_nat_less_iff)
qed

lemma expand_beyond:
  assumes "position b = of_len p" and "length (buffer b) < p + k" and "p + k \<le> kMaxLength"
  shows "expand (of_len k) b
           = (Inr (), b\<lparr>buffer := buffer b @ replicate (p + k - length (buffer b)) 0\<rparr>)"
proof -
  have lt: "num_lt (getBytesAvailable b) (of_len k)"
    using assms by (simp add: getBytesAvailable_def getLength_def of_nat_diff_less)
  have "num_add (of_len (length (buffer b))) (num_sub (of_len k) (getBytesAvailable b))
          = of_len (p + k)"
    using assms(1) by (simp add: getBytesAvailable_def getLength_def)
  moreover have "(of_nat (p + k) :: rat) \<le> of_nat kMaxLength"
    using assms(3) by (simp only: of_nat_le_iff)
  then have "Buffer_alloc (of_len (p + k)) = Inr (replicate (p + k) 0)"
    by simp
  moreover have "Buffer_copy (buffer b) (replicate (p + k) 0)
                   = buffer b @ replicate (p + k - length (buffer b)) 0"
    using assms(2) by (simp add: Buffer_copy_def)
  ultimately show ?thesis
    using lt by (simp add: expand_def Let_def)
qed


text \<open>
  Growing with \<open>setLength(n)\<close>: the call is \<open>expand(n)\<close>, so the new length is
  \<open>n\<close> plus the cursor.
\<close>

lemma setLength_grows:
  assumes "position b = of_len p" and "length (buffer b) < n" and "n + p \<le> kMaxLength"
  shows "setLength (of_len n) b
           = (Inr (), b\<lparr>buffer := buffer b @ replicate (n + p - length (buffer b)) 0\<rparr>)"
proof -
  have "expand (of_len n) b
          = (Inr (), b\<lparr>buffer := buffer b @ replicate (p + n - length (buffer b)) 0\<rparr>)"
    using assms by (intro expand_beyond) simp_all
  moreover have "0 < n"
    using assms(2) by simp
  ultimately show ?thesis
    using assms(2) by (simp add: setLength_def getLength_def add.commute)
qed

text \<open>
  C3 at a cursor that is not 0: on the two bytes \<open>[1, 2]\<close> with the cursor at 1,
  \<open>setLength(3)\<close> leaves four bytes.  \<open>setLength\<close> passes its argument to \<open>expand\<close>,
  which makes room for that many bytes after the cursor.
\<close>

theorem setLength_grows_past_request:
  "setLength (Num 3)
     \<lparr>position = Num 1, endian = BIG_ENDIAN, objectEncoding = AMF3, buffer = [1, 2]\<rparr>
   = (Inr (), \<lparr>position = Num 1, endian = BIG_ENDIAN, objectEncoding = AMF3,
                buffer = [1, 2, 0, 0]\<rparr>)"
  by (simp add: setLength_def expand_def getLength_def getBytesAvailable_def Buffer_copy_def
      kMaxLength_def replicate_4)

text \<open>The length read back after that call is 4, and the request was 3.\<close>

theorem setLength_grows_past_request_witness:
  "getLength (snd (setLength (Num 3)
      \<lparr>position = Num 1, endian = BIG_ENDIAN, objectEncoding = AMF3, buffer = [1, 2]\<rparr>))
   = Num 4"
  using setLength_grows_past_request by (simp add: getLength_def)

subsection \<open>Fixed-width reads\<close>

text \<open>Each reader but \<open>readLong\<close> moves the cursor by the width it reads.\<close>

lemma readers_advance_by_width:
  "readByte b = (r, b') \<Longrightarrow> position b' = num_add (position b) (Num 1)"
  "readUnsignedByte b = (r, b') \<Longrightarrow> position b' = num_add (position b) (Num 1)"
  "readShort b = (Inr v, b') \<Longrightarrow> position b' = num_add (position b) (Num 2)"
  "readUnsignedShort b = (Inr v, b') \<Longrightarrow> position b' = num_add (position b) (Num 2)"
  "readInt b = (Inr v, b') \<Longrightarrow> position b' = num_add (position b) (Num 4)"
  "readUnsignedInt b = (Inr v, b') \<Longrightarrow> position b' = num_add (position b) (Num 4)"
  "readUnsignedLong b = (Inr v, b') \<Longrightarrow> position b' = num_add (position b) (Num 8)"
  by (auto simp: readByte_def readUnsignedByte_def readShort_def readUnsignedShort_def
      readInt_def readUnsignedInt_def readUnsignedLong_def Let_def split: sum.splits)

lemma readLong_advances_by_four:
  "readLong b = (Inr v, b') \<Longrightarrow> position b' = num_add (position b) (Num 4)"
  by (auto simp: readLong_def split: sum.splits)

text \<open>
  C2 at eight bytes, big-endian, cursor 0: \<open>readLong\<close> returns the 64-bit value and
  leaves the cursor at 4.
\<close>

theorem readLong_advances_four:
  "readLong
     \<lparr>position = Num 0, endian = BIG_ENDIAN, objectEncoding = AMF3,
        buffer = [0, 0, 0, 0, 0, 0, 0, 5]\<rparr>
   = (Inr 5, \<lparr>position = Num 4, endian = BIG_ENDIAN, objectEncoding = AMF3,
               buffer = [0, 0, 0, 0, 0, 0, 0, 5]\<rparr>)"
  by (simp add: readLong_def getEndian_def Buffer_readBigInt64BE_def read_field_def
      be_value_def to_signed_def Number_of_BigInt_def)

text \<open>
  C7: with fewer than four bytes available \<open>readInt\<close> throws \<open>RangeError\<close>, the
  end-of-buffer failure, and the object, its cursor included, is as before the call.
\<close>

theorem readInt_end_of_buffer:
  assumes "num_lt (getBytesAvailable b) (Num 4)"
  shows "readInt b = (Inl RangeError, b)"
proof -
  have "check_offset (buffer b) (position b) 4 = Inl RangeError"
  proof (rule disjE [OF check_offset_cases [of "buffer b" "position b" 4]])
    assume "check_offset (buffer b) (position b) 4 = Inl RangeError"
    then show ?thesis .
  next
    assume "\<exists>i. position b = of_len i \<and> i + 4 \<le> length (buffer b)
                \<and> check_offset (buffer b) (position b) 4 = Inr i"
    then obtain i where i: "position b = of_len i" "i + 4 \<le> length (buffer b)"
      by blast
    from assms i(1) have "(of_nat (length (buffer b)) :: rat) - of_nat i < 4"
      by (simp add: getBytesAvailable_def getLength_def)
    then have "(of_nat (length (buffer b)) :: rat) < of_nat (i + 4)"
      by simp
    then have "length (buffer b) < i + 4"
      using of_nat_less_iff by blast
    with i(2) show ?thesis by simp
  qed
  then show ?thesis
    by (simp add: readInt_def Buffer_readInt32BE_def Buffer_readInt32LE_def read_field_def)
qed

theorem readInt_end_of_buffer_witness:
  "num_lt (getBytesAvailable
        \<lparr>position = Num 0, endian = BIG_ENDIAN, objectEncoding = AMF3, buffer = [1, 2]\<rparr>)
      (Num 4)
   \<and> readInt \<lparr>position = Num 0, endian = BIG_ENDIAN, objectEncoding = AMF3, buffer = [1, 2]\<rparr>
      = (Inl RangeError,
         \<lparr>position = Num 0, endian = BIG_ENDIAN, objectEncoding = AMF3, buffer = [1, 2]\<rparr>)"
proof -
  have h: "num_lt (getBytesAvailable
        \<lparr>position = Num 0, endian = BIG_ENDIAN, objectEncoding = AMF3, buffer = [1, 2]\<rparr>)
      (Num 4)"
    by (simp add: getBytesAvailable_def getLength_def)
  show ?thesis
    using h readInt_end_of_buffer [OF h] by simp
qed

subsection \<open>Fixed-width writes\<close>



















text \<open>
  The round trip of 1 and of -1 through \<open>writeInt\<close> and \<open>readInt\<close>, step by step.
\<close>

lemma writeInt_one_big_endian:
  "writeInt 1 \<lparr>position = Num 0, endian = BIG_ENDIAN, objectEncoding = AMF3, buffer = []\<rparr>
   = (Inr (), \<lparr>position = Num 4, endian = BIG_ENDIAN, objectEncoding = AMF3,
                buffer = [63, 128, 0, 0]\<rparr>)"
  by (simp add: writeInt_def expand_def getBytesAvailable_def getLength_def Buffer_copy_def
      getEndian_def signedOverflow_def js_and_def js_shl_def Buffer_writeFloatBE_def
      float32_bits_def write_field_def be_bytes_def le_bytes_4 replicate_4 kMaxLength_def)

lemma readInt_one_big_endian:
  "readInt \<lparr>position = Num 0, endian = BIG_ENDIAN, objectEncoding = AMF3,
             buffer = [63, 128, 0, 0]\<rparr>
   = (Inr 1065353216, \<lparr>position = Num 4, endian = BIG_ENDIAN, objectEncoding = AMF3,
                        buffer = [63, 128, 0, 0]\<rparr>)"
  by (simp add: readInt_def getEndian_def Buffer_readInt32BE_def read_field_def be_value_def
      to_signed_def)

lemma writeInt_one_little_endian:
  "writeInt 1 \<lparr>position = Num 0, endian = LITTLE_ENDIAN, objectEncoding = AMF3, buffer = []\<rparr>
   = (Inr (), \<lparr>position = Num 4, endian = LITTLE_ENDIAN, objectEncoding = AMF3,
                buffer = [0, 0, 128, 63]\<rparr>)"
  by (simp add: writeInt_def expand_def getBytesAvailable_def getLength_def Buffer_copy_def
      getEndian_def signedOverflow_def js_and_def js_shl_def Buffer_writeFloatLE_def
      float32_bits_def write_field_def le_bytes_4 replicate_4 kMaxLength_def)

lemma readInt_one_little_endian:
  "readInt \<lparr>position = Num 0, endian = LITTLE_ENDIAN, objectEncoding = AMF3,
             buffer = [0, 0, 128, 63]\<rparr>
   = (Inr 1065353216, \<lparr>position = Num 4, endian = LITTLE_ENDIAN, objectEncoding = AMF3,
                        buffer = [0, 0, 128, 63]\<rparr>)"
  by (simp add: readInt_def getEndian_def Buffer_readInt32LE_def read_field_def be_value_def
      le_value_def to_signed_def)

lemma writeInt_minus_one_big_endian:
  "writeInt (- 1) \<lparr>position = Num 0, endian = BIG_ENDIAN, objectEncoding = AMF3, buffer = []\<rparr>
   = (Inr (), \<lparr>position = Num 4, endian = BIG_ENDIAN, objectEncoding = AMF3,
                buffer = [79, 128, 0, 0]\<rparr>)"
  by (simp add: writeInt_def expand_def getBytesAvailable_def getLength_def Buffer_copy_def
      getEndian_def signedOverflow_def js_and_def js_shl_def Buffer_writeFloatBE_def
      float32_bits_def round_half_even_def write_field_def be_bytes_def le_bytes_4 replicate_4
      kMaxLength_def)

lemma readInt_minus_one_big_endian:
  "readInt \<lparr>position = Num 0, endian = BIG_ENDIAN, objectEncoding = AMF3,
             buffer = [79, 128, 0, 0]\<rparr>
   = (Inr 1333788672, \<lparr>position = Num 4, endian = BIG_ENDIAN, objectEncoding = AMF3,
                        buffer = [79, 128, 0, 0]\<rparr>)"
  by (simp add: readInt_def getEndian_def Buffer_readInt32BE_def read_field_def be_value_def
      to_signed_def)

text \<open>
  C1 at \<open>v = 1\<close> in both byte orders and at \<open>v = -1\<close>: \<open>writeInt\<close> stores the
  single-precision encoding of its value (\<open>3F 80 00 00\<close> for 1, \<open>4F 80 00 00\<close> for
  \<open>signedOverflow(-1, 32) = 4294967295\<close>), and \<open>readInt\<close> reads those four bytes as an
  integer.
\<close>

theorem writeInt_readInt_values:
  "write_then_read_int ''BE'' 1 = Inr 1065353216
   \<and> write_then_read_int ''LE'' 1 = Inr 1065353216
   \<and> write_then_read_int ''BE'' (- 1) = Inr 1333788672"
  by (simp add: write_then_read_int_def new_ByteArray_def setEndian_def setPosition_def
      writeInt_one_big_endian readInt_one_big_endian
      writeInt_one_little_endian readInt_one_little_endian
      writeInt_minus_one_big_endian readInt_minus_one_big_endian)

subsection \<open>Strings\<close>



subsection \<open>Bulk copy\<close>

text \<open>
  The constructor on the heap gives the object that the constructor of an object taken
  alone gives on the bytes; and it keeps a Buffer passed to it, so that two objects
  made from one Buffer have the same window.
\<close>

lemma new_ByteArray_at_refines:
  "map_sum id (\<lambda>H1. object_at H1 r) (new_ByteArray_at r v H)
     = new_ByteArray (map_source (bytes_of (memory H)) v)"
proof (cases v)
  case (FromBuffer w)
  then show ?thesis
    by (simp add: new_ByteArray_at_def new_ByteArray_def object_at_def)
next
  case (FromArray xs)
  then show ?thesis
    by (simp add: new_ByteArray_at_def new_ByteArray_def object_at_def bytes_of_def)
next
  case (FromNumber n)
  define k where "k = (if Number_isInteger n then n else Num 0)"
  have c: "convert_in (FromNumber n) (memory H) = Buffer_alloc_in k (memory H)"
    "convert (FromNumber n) = Buffer_alloc k"
    by (simp_all add: k_def)
  show ?thesis
    unfolding FromNumber new_ByteArray_at_def new_ByteArray_def source.map c
    by (cases "Buffer_alloc k") (simp_all add: Buffer_alloc_in_def object_at_def bytes_of_def)
qed

lemma new_ByteArray_at_keeps_Buffer:
  "new_ByteArray_at r (FromBuffer w) H
     = Inr (H\<lparr>objects := (objects H)
                (r := \<lparr>position = Num 0, endian = BIG_ENDIAN, objectEncoding = AMF3,
                       buffer = w\<rparr>)\<rparr>)"
  by (simp add: new_ByteArray_at_def)


lemma length_bytes_of: "valid_window m w \<Longrightarrow> length (bytes_of m w) = byteLength w"
  by (simp add: bytes_of_def valid_window_def)




lemma length_Buffer_set_in [simp]: "length (Buffer_set_in m w i v) = length m"
  by (simp add: Buffer_set_in_def split: option.splits)







text \<open>
  Growing on the heap.  The new Buffer is fresh memory behind the old one, so the
  memory that was there keeps its bytes; and the object at the reference shows what
  \<open>expand\<close> gives on the object taken alone.
\<close>

lemma Buffer_copy_in_fresh:
  assumes "valid_window m old"
  shows "Buffer_copy_in old \<lparr>byteOffset = length m, byteLength = length new\<rparr> (m @ new)
           = m @ Buffer_copy (bytes_of m old) new"
proof -
  define n where "n = min (byteLength old) (length new)"
  have v: "byteOffset old + byteLength old \<le> length m"
    using assms by (simp add: valid_window_def)
  have a: "take n (drop (byteOffset old) (m @ new)) = take n (drop (byteOffset old) m)"
    using v by (simp add: n_def)
  have b: "take (length new) (bytes_of m old) = take n (drop (byteOffset old) m)"
    by (simp add: bytes_of_def n_def min.commute)
  have l: "length (bytes_of m old) = byteLength old"
    using assms by (rule length_bytes_of)
  have c: "drop (length (bytes_of m old)) new = drop n new"
    unfolding l by (simp add: n_def min_def)
  have "Buffer_copy_in old \<lparr>byteOffset = length m, byteLength = length new\<rparr> (m @ new)
          = take (length m) (m @ new) @ take n (drop (byteOffset old) (m @ new))
            @ drop (length m + n) (m @ new)"
    by (simp only: Buffer_copy_in_def Let_def n_def window.simps)
  also have "\<dots> = m @ take n (drop (byteOffset old) m) @ drop n new"
    unfolding a by simp
  also have "\<dots> = m @ Buffer_copy (bytes_of m old) new"
    unfolding Buffer_copy_def b c ..
  finally show ?thesis .
qed

lemma getBytesAvailable_object_at:
  "valid_window (memory H) (buffer (objects H r))
     \<Longrightarrow> getBytesAvailable (object_at H r) = getBytesAvailable_at H r"
  by (simp add: getBytesAvailable_def getBytesAvailable_at_def getLength_def getLength_at_def
      object_at_def length_bytes_of)

lemma expand_at_refines:
  assumes "valid_window (memory H) (buffer (objects H r))"
  shows "fst (expand_at v r H) = fst (expand v (object_at H r))
       \<and> object_at (snd (expand_at v r H)) r = snd (expand v (object_at H r))"
proof (cases "num_lt (getBytesAvailable_at H r) v")
  case False
  then show ?thesis
    using getBytesAvailable_object_at [OF assms] by (simp add: expand_at_def expand_def)
next
  case True
  define n where "n = num_add (of_len (byteLength (buffer (objects H r))))
                        (num_sub v (getBytesAvailable_at H r))"
  have n': "num_add (of_len (length (buffer (object_at H r))))
              (num_sub v (getBytesAvailable (object_at H r))) = n"
    using getBytesAvailable_object_at [OF assms] assms
    by (simp add: n_def object_at_def length_bytes_of)
  have lt: "num_lt (getBytesAvailable (object_at H r)) v"
    using True getBytesAvailable_object_at [OF assms] by simp
  show ?thesis
  proof (cases "Buffer_alloc n")
    case (Inl e)
    then show ?thesis
      using True lt n'
      by (simp add: expand_at_def expand_def Buffer_alloc_in_def Let_def n_def [symmetric])
  next
    case (Inr new)
    have "expand_at v r H
            = (Inr (), H\<lparr>objects := (objects H)
                  (r := (objects H r)\<lparr>buffer := \<lparr>byteOffset = length (memory H),
                                                  byteLength = length new\<rparr>\<rparr>),
                memory := memory H @ Buffer_copy (bytes_of (memory H) (buffer (objects H r))) new\<rparr>)"
      using True Inr Buffer_copy_in_fresh [OF assms, of new]
      by (simp add: expand_at_def Buffer_alloc_in_def Let_def n_def [symmetric])
    moreover have "expand v (object_at H r)
            = (Inr (), (object_at H r)\<lparr>buffer := Buffer_copy (buffer (object_at H r)) new\<rparr>)"
      using lt Inr n' by (simp add: expand_def Let_def)
    moreover have "length (Buffer_copy (bytes_of (memory H) (buffer (objects H r))) new)
                     = length new"
      by (simp add: Buffer_copy_def)
    ultimately show ?thesis
      by (simp add: object_at_def bytes_of_def)
  qed
qed




lemma copy_loop_objects: "objects (copy_loop this bytes offset len i H) = objects H"
proof (induction this bytes offset len i H rule: copy_loop.induct)
  case (1 this bytes offset len i H)
  show ?case
  proof (cases "num_lt (of_len i) len")
    case True
    then show ?thesis
      using "1.IH" [OF True] by (subst copy_loop.simps) simp
  next
    case False
    then show ?thesis
      by (subst copy_loop.simps) simp
  qed
qed



text \<open>
  Every window lies within the memory, and this stays so: the constructor, given a
  Buffer within the memory, \<open>expand\<close> and \<open>readBytes\<close> keep it.
\<close>

lemma valid_heap_new_buffer:
  assumes "valid_heap H"
    and "byteOffset (buffer b) + byteLength (buffer b) \<le> length (memory H) + length xs"
  shows "valid_heap (H\<lparr>objects := (objects H)(r := b), memory := memory H @ xs\<rparr>)"
  unfolding valid_heap_def
proof
  fix r'
  show "valid_window (memory (H\<lparr>objects := (objects H)(r := b), memory := memory H @ xs\<rparr>))
          (buffer (objects (H\<lparr>objects := (objects H)(r := b), memory := memory H @ xs\<rparr>) r'))"
  proof (cases "r' = r")
    case True
    then show ?thesis
      using assms(2) by (simp add: valid_window_def)
  next
    case False
    have "valid_window (memory H) (buffer (objects H r'))"
      using assms(1) by (simp add: valid_heap_def)
    then show ?thesis
      using False by (simp add: valid_window_def)
  qed
qed

lemma new_ByteArray_at_valid:
  assumes "valid_heap H" and "\<forall>w. v = FromBuffer w \<longrightarrow> valid_window (memory H) w"
    and "new_ByteArray_at r v H = Inr H1"
  shows "valid_heap H1"
proof (cases v)
  case (FromBuffer w)
  with assms(2) have "valid_window (memory H) w" by simp
  then have "valid_heap (H\<lparr>objects := (objects H)
                  (r := \<lparr>position = Num 0, endian = BIG_ENDIAN, objectEncoding = AMF3,
                         buffer = w\<rparr>),
                memory := memory H @ []\<rparr>)"
    by (intro valid_heap_new_buffer [OF assms(1)]) (simp add: valid_window_def)
  with assms(3) FromBuffer show ?thesis
    by (auto simp: new_ByteArray_at_def)
next
  case (FromArray xs)
  have "valid_heap (H\<lparr>objects := (objects H)
                  (r := \<lparr>position = Num 0, endian = BIG_ENDIAN, objectEncoding = AMF3,
                         buffer = \<lparr>byteOffset = length (memory H), byteLength = length xs\<rparr>\<rparr>),
                memory := memory H @ map word_of_int xs\<rparr>)"
    by (intro valid_heap_new_buffer [OF assms(1)]) simp
  with assms(3) FromArray show ?thesis
    by (auto simp: new_ByteArray_at_def)
next
  case (FromNumber n)
  define k where "k = (if Number_isInteger n then n else Num 0)"
  have c: "convert_in (FromNumber n) (memory H) = Buffer_alloc_in k (memory H)"
    by (simp add: k_def)
  from assms(3) obtain new where "Buffer_alloc k = Inr new"
    and "H1 = H\<lparr>objects := (objects H)
                  (r := \<lparr>position = Num 0, endian = BIG_ENDIAN, objectEncoding = AMF3,
                         buffer = \<lparr>byteOffset = length (memory H), byteLength = length new\<rparr>\<rparr>),
                memory := memory H @ new\<rparr>"
    unfolding FromNumber new_ByteArray_at_def c
    by (cases "Buffer_alloc k") (auto simp: Buffer_alloc_in_def)
  then show ?thesis
    using valid_heap_new_buffer [OF assms(1), of
        "\<lparr>position = Num 0, endian = BIG_ENDIAN, objectEncoding = AMF3,
          buffer = \<lparr>byteOffset = length (memory H), byteLength = length new\<rparr>\<rparr>" new r]
    by simp
qed

lemma expand_at_valid:
  assumes "valid_heap H"
  shows "valid_heap (snd (expand_at v r H))"
proof (cases "num_lt (getBytesAvailable_at H r) v")
  case False
  with assms show ?thesis by (simp add: expand_at_def)
next
  case True
  define n where "n = num_add (of_len (byteLength (buffer (objects H r))))
                        (num_sub v (getBytesAvailable_at H r))"
  have vr: "valid_window (memory H) (buffer (objects H r))"
    using assms by (simp add: valid_heap_def)
  show ?thesis
  proof (cases "Buffer_alloc n")
    case (Inl e)
    with True assms show ?thesis
      by (simp add: expand_at_def Buffer_alloc_in_def Let_def n_def [symmetric])
  next
    case (Inr new)
    have "expand_at v r H
            = (Inr (), H\<lparr>objects := (objects H)
                  (r := (objects H r)\<lparr>buffer := \<lparr>byteOffset = length (memory H),
                                                  byteLength = length new\<rparr>\<rparr>),
                memory := memory H @ Buffer_copy (bytes_of (memory H) (buffer (objects H r))) new\<rparr>)"
      using True Inr Buffer_copy_in_fresh [OF vr, of new]
      by (simp add: expand_at_def Buffer_alloc_in_def Let_def n_def [symmetric])
    moreover have "length (Buffer_copy (bytes_of (memory H) (buffer (objects H r))) new)
                     = length new"
      by (simp add: Buffer_copy_def)
    ultimately show ?thesis
      using valid_heap_new_buffer [OF assms, of
          "(objects H r)\<lparr>buffer := \<lparr>byteOffset = length (memory H),
                                          byteLength = length new\<rparr>\<rparr>"
          "Buffer_copy (bytes_of (memory H) (buffer (objects H r))) new" r]
      by simp
  qed
qed

lemma copy_loop_length: "length (memory (copy_loop this bytes offset len i H)) = length (memory H)"
proof (induction this bytes offset len i H rule: copy_loop.induct)
  case (1 this bytes offset len i H)
  show ?case
  proof (cases "num_lt (of_len i) len")
    case True
    then show ?thesis
      using "1.IH" [OF True] by (subst copy_loop.simps) simp
  next
    case False
    then show ?thesis
      by (subst copy_loop.simps) simp
  qed
qed

lemma readBytes_valid:
  assumes "valid_heap H"
  shows "valid_heap (snd (readBytes this bytes offset len H))"
proof -
  define n where "n = (if num_eq len (Num 0) then getBytesAvailable_at H this else len)"
  define E where "E = (if num_lt (getLength_at H bytes) (num_add offset n)
                       then expand_at (num_add offset n) bytes H else (Inr (), H))"
  have vE: "valid_heap (snd E)"
    using assms expand_at_valid [OF assms, of "num_add offset n" bytes] by (simp add: E_def)
  show ?thesis
  proof (cases "num_gt n (getBytesAvailable_at H this)")
    case True
    with assms show ?thesis
      by (simp add: readBytes_def Let_def n_def [symmetric])
  next
    case False
    obtain e H1 where E: "E = (e, H1)" by (cases E)
    show ?thesis
    proof (cases e)
      case (Inl x)
      with E vE False show ?thesis
        by (simp add: readBytes_def Let_def n_def [symmetric] E_def [symmetric])
    next
      case (Inr u)
      with E vE False show ?thesis
        by (simp add: readBytes_def Let_def n_def [symmetric] E_def [symmetric]
            valid_heap_def valid_window_def copy_loop_objects copy_loop_length)
    qed
  qed
qed











end
